theory Spec2Isabelle
  imports Main "HOL-Library.Multiset"
begin

section \<open>Helpers of the extension synchroniser\<close>

text \<open>
  \<^verbatim>\<open>diff(base, values)\<close> reduces \<open>values\<close> from the left over a fresh empty
  accumulator: a value that \<open>base.includes\<close> leaves the accumulator as it is, any other
  value is pushed at its end. Identifiers are strings, on which \<open>includes\<close> is equality;
  the embedding keeps the element type open. The earlier revisions of the script write
  the same reduction inline, once for each of the two lists.
\<close>

definition diff :: "'a list \<Rightarrow> 'a list \<Rightarrow> 'a list" where
  "diff base values =
     foldl (\<lambda>acc v. if v \<in> set base then acc else acc @ [v]) [] values"

text \<open>
  The two assignments of \<^verbatim>\<open>installExtensions\<close> that fill the plan:
  \<^verbatim>\<open>extensionsToInstall = diff(installedExtensions, savedExtensions)\<close> and
  \<^verbatim>\<open>extensionsToUninstall = diff(savedExtensions, installedExtensions)\<close>.
\<close>

definition reconciliationPlan :: "'a list \<Rightarrow> 'a list \<Rightarrow> 'a list \<times> 'a list" where
  "reconciliationPlan installedExtensions savedExtensions =
     (diff installedExtensions savedExtensions, diff savedExtensions installedExtensions)"

text \<open>
  \<^verbatim>\<open>extensionsString.split('\n')\<close>: the pieces between the line feeds, in order. An
  empty string splits into one empty piece, and a trailing line feed leaves an empty last
  piece.
\<close>

fun split :: "char \<Rightarrow> string \<Rightarrow> string list" where
  "split sep [] = [[]]"
| "split sep (c # cs) =
     (if c = sep then [] # split sep cs
      else (case split sep cs of
              [] \<Rightarrow> [[c]]
            | piece # pieces \<Rightarrow> (c # piece) # pieces))"

text \<open>\<^verbatim>\<open>.filter(Boolean)\<close> keeps the truthy pieces: the non-empty strings.\<close>

definition transformExtensionsStringToArray :: "string \<Rightarrow> string list" where
  "transformExtensionsStringToArray extensionsString =
     filter (\<lambda>piece. piece \<noteq> []) (split (CHR 0x0A) extensionsString)"

section \<open>What a run does, as a trace\<close>

text \<open>
  The console texts carry pictographs; each is named here by the place that prints it,
  with the interpolated identifier or error stream as its argument.
\<close>

datatype message =
    MsgInstallingExtensions
  | MsgSeparator
  | MsgUnableToGetExtensions string
  | MsgExtensionsFileIsEmpty
  | MsgNothingToInstallAndUninstall
  | MsgInstalling string
  | MsgUninstalling string
  | MsgSuccess

text \<open>
  The two commands handed to \<^verbatim>\<open>exec\<close> with an identifier:
  \<^verbatim>\<open>code --install-extension\<close> and \<^verbatim>\<open>code --uninstall-extension\<close>.
\<close>

datatype operation = Install | Uninstall

text \<open>What reaches \<^verbatim>\<open>console.error\<close> through a \<^verbatim>\<open>.catch\<close>.\<close>

datatype failure =
    ListExtensionsRejected
  | SplitOfUndefined
  | ReadFileSyncThrew
  | OperationRejected

datatype event =
    Log message
  | LogError failure
  | Question "string list" "string list"
  | Close
  | Exec operation string
  | Settled operation string bool

text \<open>
  Where the promise chain of \<^verbatim>\<open>installExtensions\<close> stands: still in its synchronous
  part, ended by \<^verbatim>\<open>process.exit\<close> with a code, waiting on the \<^verbatim>\<open>Promise.all\<close> of the
  installs or of the uninstalls, through its last \<^verbatim>\<open>.then\<close> (the success line is
  printed), or in its \<^verbatim>\<open>.catch\<close> (the rejection is printed and nothing exits).
\<close>

datatype status =
    Running
  | Exited nat
  | InstallsPending
  | UninstallsPending
  | Succeeded
  | ErrorLogged

text \<open>
  The state of one run: the two \<^verbatim>\<open>let\<close> variables of \<^verbatim>\<open>installExtensions\<close>, what has
  happened so far, and the child processes that have been started and have not settled.
\<close>

record run =
  extensionsToInstall :: "string list"
  extensionsToUninstall :: "string list"
  trace :: "event list"
  installsInFlight :: "string list"
  uninstallsInFlight :: "string list"
  status :: status

text \<open>
  The promisified \<^verbatim>\<open>exec('code --list-extensions')\<close> either resolves with the two
  output streams or rejects.
\<close>

datatype exec_result = ExecResolved string string | ExecRejected

text \<open>
  One child process of an install or uninstall settles: its promise resolves (\<open>True\<close>)
  or rejects (\<open>False\<close>).
\<close>

datatype settlement = Settle operation string bool

text \<open>
  Everything a run reads from outside: the result of listing the installed extensions,
  the content of \<^verbatim>\<open>./extensions\<close> (\<open>None\<close> when \<^verbatim>\<open>readFileSync\<close> throws), the line
  answered to the question, and the order and results in which child processes settle.
\<close>

record env =
  listExtensions :: exec_result
  extensionsFile :: "string option"
  answer :: string
  settlements :: "settlement list"

text \<open>
  \<^verbatim>\<open>readInstalledExtensions\<close>: a non-empty error stream prints a notice and exits with
  code 1 (\<open>Inl\<close>); otherwise the promise resolves with the output (\<open>Inr\<close>). A rejected
  \<^verbatim>\<open>exec\<close> is caught by \<^verbatim>\<open>.catch(console.error)\<close>, so the promise resolves with
  \<^verbatim>\<open>undefined\<close> (\<open>None\<close>).
\<close>

definition readInstalledExtensions :: "exec_result \<Rightarrow> event list \<times> (nat + string option)" where
  "readInstalledExtensions r =
     (case r of
        ExecResolved stdout stderr \<Rightarrow>
          if stderr \<noteq> [] then ([Log (MsgUnableToGetExtensions stderr)], Inl 1)
          else ([], Inr (Some stdout))
      | ExecRejected \<Rightarrow> ([LogError ListExtensionsRejected], Inr None))"

definition installExtension :: "string \<Rightarrow> event list" where
  "installExtension extension = [Log (MsgInstalling extension), Exec Install extension]"

definition uninstallExtension :: "string \<Rightarrow> event list" where
  "uninstallExtension extension = [Log (MsgUninstalling extension), Exec Uninstall extension]"

text \<open>The last \<^verbatim>\<open>.then\<close> and the final \<^verbatim>\<open>.catch(console.error)\<close>.\<close>

definition logSuccess :: "run \<Rightarrow> run" where
  "logSuccess r = r\<lparr>trace := trace r @ [Log MsgSuccess], status := Succeeded\<rparr>"

definition catchRejection :: "failure \<Rightarrow> run \<Rightarrow> run" where
  "catchRejection f r = r\<lparr>trace := trace r @ [LogError f], status := ErrorLogged\<rparr>"

text \<open>
  \<^verbatim>\<open>Promise.all(extensionsToUninstall.map(uninstallExtension))\<close>: every uninstall is
  started, in list order, before any of them settles; the \<^verbatim>\<open>Promise.all\<close> of an empty
  array is already resolved, and the chain goes on to the success line.
\<close>

definition startUninstalls :: "run \<Rightarrow> run" where
  "startUninstalls r =
     (let r' = r\<lparr>trace := trace r @ concat (map uninstallExtension (extensionsToUninstall r)),
                  uninstallsInFlight := extensionsToUninstall r\<rparr>
      in if extensionsToUninstall r = [] then logSuccess r'
         else r'\<lparr>status := UninstallsPending\<rparr>)"

text \<open>\<^verbatim>\<open>Promise.all(extensionsToInstall.map(installExtension))\<close>, in the same way.\<close>

definition startInstalls :: "run \<Rightarrow> run" where
  "startInstalls r =
     (let r' = r\<lparr>trace := trace r @ concat (map installExtension (extensionsToInstall r)),
                  installsInFlight := extensionsToInstall r\<rparr>
      in if extensionsToInstall r = [] then startUninstalls r'
         else r'\<lparr>status := InstallsPending\<rparr>)"

text \<open>
  One child process settles. A settlement of a process that is not in flight changes
  nothing. \<^verbatim>\<open>Promise.all\<close> rejects at the first rejection, which takes the chain past
  both remaining \<^verbatim>\<open>.then\<close>s to the \<^verbatim>\<open>.catch\<close>; it resolves when the last of its promises
  has resolved, which runs the next \<^verbatim>\<open>.then\<close>. A process that settles when the chain is
  no longer waiting on its \<^verbatim>\<open>Promise.all\<close> has no effect on the chain.
\<close>

fun settle :: "run \<Rightarrow> settlement \<Rightarrow> run" where
  "settle r (Settle Install extension ok) =
     (if extension \<notin> set (installsInFlight r) then r
      else
        let r' = r\<lparr>trace := trace r @ [Settled Install extension ok],
                    installsInFlight := remove1 extension (installsInFlight r)\<rparr>
        in if status r \<noteq> InstallsPending then r'
           else if \<not> ok then catchRejection OperationRejected r'
           else if installsInFlight r' = [] then startUninstalls r'
           else r')"
| "settle r (Settle Uninstall extension ok) =
     (if extension \<notin> set (uninstallsInFlight r) then r
      else
        let r' = r\<lparr>trace := trace r @ [Settled Uninstall extension ok],
                    uninstallsInFlight := remove1 extension (uninstallsInFlight r)\<rparr>
        in if status r \<noteq> UninstallsPending then r'
           else if \<not> ok then catchRejection OperationRejected r'
           else if uninstallsInFlight r' = [] then logSuccess r'
           else r')"

text \<open>
  The second \<^verbatim>\<open>.then\<close>: the interface is closed, any answer that is not \<^verbatim>\<open>'y'\<close> exits
  with code 0, and \<^verbatim>\<open>'y'\<close> starts the installs. From there the run is driven by the
  settlements of the child processes.
\<close>

definition onAnswer :: "string \<Rightarrow> settlement list \<Rightarrow> run \<Rightarrow> run" where
  "onAnswer ans ss r =
     (let r' = r\<lparr>trace := trace r @ [Close]\<rparr>
      in if ans \<noteq> ''y'' then r'\<lparr>status := Exited 0\<rparr>
         else foldl settle (startInstalls r') ss)"

text \<open>
  The first \<^verbatim>\<open>.then\<close>, on the resolved list of installed extensions: the split of
  \<^verbatim>\<open>undefined\<close> and a throwing \<^verbatim>\<open>readFileSync\<close> reject the chain, which the final
  \<^verbatim>\<open>.catch\<close> prints; an empty saved list exits with code 1; an empty plan exits with
  code 0; otherwise the question is asked with both lists.
\<close>

definition onInstalledExtensions :: "env \<Rightarrow> string option \<Rightarrow> run \<Rightarrow> run" where
  "onInstalledExtensions e installedExtensionsStr r =
     (case installedExtensionsStr of
        None \<Rightarrow> catchRejection SplitOfUndefined r
      | Some str \<Rightarrow>
          let installedExtensions = transformExtensionsStringToArray str
          in (case extensionsFile e of
                None \<Rightarrow> catchRejection ReadFileSyncThrew r
              | Some content \<Rightarrow>
                  let savedExtensions = transformExtensionsStringToArray content
                  in if savedExtensions = []
                     then r\<lparr>trace := trace r @ [Log MsgExtensionsFileIsEmpty], status := Exited 1\<rparr>
                     else
                       let r' = r\<lparr>extensionsToInstall :=
                                     fst (reconciliationPlan installedExtensions savedExtensions),
                                   extensionsToUninstall :=
                                     snd (reconciliationPlan installedExtensions savedExtensions)\<rparr>
                       in if extensionsToUninstall r' = [] \<and> extensionsToInstall r' = []
                          then r'\<lparr>trace := trace r' @ [Log MsgNothingToInstallAndUninstall],
                                   status := Exited 0\<rparr>
                          else onAnswer (answer e) (settlements e)
                                 (r'\<lparr>trace := trace r' @
                                       [Question (extensionsToInstall r') (extensionsToUninstall r')]\<rparr>)))"

definition installExtensions :: "env \<Rightarrow> run" where
  "installExtensions e =
     (let r = \<lparr>extensionsToInstall = [], extensionsToUninstall = [],
               trace = [Log MsgInstallingExtensions, Log MsgSeparator],
               installsInFlight = [], uninstallsInFlight = [], status = Running\<rparr>
      in case readInstalledExtensions (listExtensions e) of
           (evs, Inl code) \<Rightarrow> r\<lparr>trace := trace r @ evs, status := Exited code\<rparr>
         | (evs, Inr installedExtensionsStr) \<Rightarrow>
             onInstalledExtensions e installedExtensionsStr (r\<lparr>trace := trace r @ evs\<rparr>))"

text \<open>
  Reading a trace: the identifiers handed to \<^verbatim>\<open>exec\<close> for an operation, in the order
  and number in which the child processes were started.
\<close>

definition attempted :: "operation \<Rightarrow> event list \<Rightarrow> string list" where
  "attempted opn evs =
     concat (map (\<lambda>ev. case ev of
                          Exec opn' extension \<Rightarrow> if opn' = opn then [extension] else []
                        | _ \<Rightarrow> []) evs)"

text \<open>
  What holds of a run from the moment the installs are started, whatever settles next.
  While the chain waits on the installs nothing has been uninstalled; it waits on the
  uninstalls, or has printed the success line, only when no install is in flight and none
  was rejected; and in the \<^verbatim>\<open>.catch\<close> either no uninstall was ever started, or the
  installs had all resolved.
\<close>

definition chainInvariant :: "run \<Rightarrow> bool" where
  "chainInvariant r \<longleftrightarrow>
     status r \<noteq> Running \<and> (\<forall>code. status r \<noteq> Exited code) \<and>
     attempted Install (trace r) = extensionsToInstall r \<and>
     (status r = InstallsPending \<longrightarrow>
        attempted Uninstall (trace r) = [] \<and> uninstallsInFlight r = [] \<and>
        Log MsgSuccess \<notin> set (trace r) \<and> LogError OperationRejected \<notin> set (trace r) \<and>
        (\<forall>x. Settled Install x False \<notin> set (trace r))) \<and>
     (status r = UninstallsPending \<longrightarrow>
        installsInFlight r = [] \<and> attempted Uninstall (trace r) = extensionsToUninstall r \<and>
        Log MsgSuccess \<notin> set (trace r) \<and> LogError OperationRejected \<notin> set (trace r) \<and>
        (\<forall>x. Settled Install x False \<notin> set (trace r))) \<and>
     (status r = Succeeded \<longrightarrow>
        installsInFlight r = [] \<and> uninstallsInFlight r = [] \<and>
        attempted Uninstall (trace r) = extensionsToUninstall r \<and>
        LogError OperationRejected \<notin> set (trace r) \<and>
        (\<forall>x. Settled Install x False \<notin> set (trace r))) \<and>
     (status r = ErrorLogged \<longrightarrow>
        Log MsgSuccess \<notin> set (trace r) \<and> LogError OperationRejected \<in> set (trace r) \<and>
        (attempted Uninstall (trace r) = [] \<and> uninstallsInFlight r = [] \<or>
         installsInFlight r = [] \<and> (\<forall>x. Settled Install x False \<notin> set (trace r))))"

text \<open>
  Reading a trace: the identifiers whose child process for an operation has settled,
  resolved or rejected, in the order in which that happened.
\<close>

definition settled :: "operation \<Rightarrow> event list \<Rightarrow> string list" where
  "settled opn evs =
     concat (map (\<lambda>ev. case ev of
                          Settled opn' extension ok \<Rightarrow> if opn' = opn then [extension] else []
                        | _ \<Rightarrow> []) evs)"

text \<open>
  The installs in flight are the installs the trace shows started and not yet settled,
  counted with their multiplicity.
\<close>

definition inFlightAccount :: "run \<Rightarrow> bool" where
  "inFlightAccount r \<longleftrightarrow>
     mset (installsInFlight r) + mset (settled Install (trace r)) =
       mset (attempted Install (trace r))"

text \<open>
  Wherever the trace shows an uninstall handed to \<^verbatim>\<open>exec\<close>, the part of the trace
  before it shows every install of the plan started and settled.
\<close>

definition uninstallsFollowInstalls :: "run \<Rightarrow> bool" where
  "uninstallsFollowInstalls r \<longleftrightarrow>
     (\<forall>pre u post. trace r = pre @ Exec Uninstall u # post \<longrightarrow>
        attempted Install pre = extensionsToInstall r \<and>
        mset (settled Install pre) = mset (extensionsToInstall r))"

section \<open>The reduction is a filter\<close>

lemma diff_foldl_acc:
  "foldl (\<lambda>acc v. if v \<in> set base then acc else acc @ [v]) acc0 values =
     acc0 @ filter (\<lambda>v. v \<notin> set base) values"
  by (induction "values" arbitrary: acc0) simp_all

lemma diff_filter: "diff base values = filter (\<lambda>v. v \<notin> set base) values"
  by (simp add: diff_def diff_foldl_acc)

lemma set_diff: "set (diff base values) = set values - set base"
  by (auto simp: diff_filter)

lemma distinct_diff: "distinct values \<Longrightarrow> distinct (diff base values)"
  by (simp add: diff_filter)

lemma diff_empty_iff: "diff base values = [] \<longleftrightarrow> set values \<subseteq> set base"
  by (auto simp: diff_filter filter_empty_conv)

lemma count_list_filter:
  "count_list (filter P xs) v = (if P v then count_list xs v else 0)"
  by (induction xs) simp_all

section \<open>The plan\<close>

text \<open>
  C1. For all deduplicated lists \<open>L\<close> of installed and \<open>S\<close> of saved identifiers, the
  plan \<open>(I, U)\<close> computed from them has, as sets, \<open>I = S - L\<close> and \<open>U = L - S\<close>; the two
  are disjoint, together with the common part they make up \<open>L \<union> S\<close>, and both are
  again free of duplicates.
\<close>

theorem plan_is_set_difference:
  assumes "distinct L" and "distinct S" and "reconciliationPlan L S = (I, U)"
  shows "set I = set S - set L \<and> set U = set L - set S \<and>
         set I \<inter> set U = {} \<and>
         set I \<union> set U \<union> (set L \<inter> set S) = set L \<union> set S \<and>
         distinct I \<and> distinct U"
proof -
  from assms(3) have I: "I = diff L S" and U: "U = diff S L"
    by (simp_all add: reconciliationPlan_def)
  have "set I = set S - set L" "set U = set L - set S"
    by (simp_all add: I U set_diff)
  moreover have "distinct I" "distinct U"
    using assms(1,2) by (simp_all add: I U distinct_diff)
  ultimately show ?thesis by blast
qed

theorem plan_is_set_difference_witness:
  "distinct [''a'', ''b''] \<and> distinct [''b'', ''c''] \<and>
   reconciliationPlan [''a'', ''b''] [''b'', ''c''] = ([''c''], [''a'']) \<and>
   set [''c''] = set [''b'', ''c''] - set [''a'', ''b''] \<and>
   set [''a''] = set [''a'', ''b''] - set [''b'', ''c''] \<and>
   set [''c''] \<inter> set [''a''] = {}"
proof -
  have h1: "distinct [''a'', ''b'']" by simp
  have h2: "distinct [''b'', ''c'']" by simp
  have h3: "reconciliationPlan [''a'', ''b''] [''b'', ''c''] = ([''c''], [''a''])"
    by code_simp
  from plan_is_set_difference [OF h1 h2 h3] h1 h2 h3 show ?thesis by blast
qed

text \<open>
  C7. Let \<open>(I, U)\<close> be the plan for \<open>L\<close> and \<open>S\<close>, and let \<open>L'\<close> list the extensions
  installed once the plan has been carried out in full: those of \<open>L\<close> and \<open>I\<close> that are
  not in \<open>U\<close>. The plan for \<open>L'\<close> and the same \<open>S\<close> is empty on both sides.
\<close>

theorem plan_idempotent:
  assumes "reconciliationPlan L S = (I, U)"
    and "set L' = (set L \<union> set I) - set U"
  shows "reconciliationPlan L' S = ([], [])"
proof -
  from assms(1) have "set I = set S - set L" "set U = set L - set S"
    by (auto simp: reconciliationPlan_def set_diff)
  with assms(2) have "set L' = set S" by blast
  then show ?thesis
    by (simp add: reconciliationPlan_def diff_empty_iff)
qed

theorem plan_idempotent_witness:
  "reconciliationPlan [''a'', ''b''] [''b'', ''c''] = ([''c''], [''a'']) \<and>
   set [''b'', ''c''] = (set [''a'', ''b''] \<union> set [''c'']) - set [''a''] \<and>
   reconciliationPlan [''b'', ''c''] [''b'', ''c''] = ([], [])"
proof -
  have h1: "reconciliationPlan [''a'', ''b''] [''b'', ''c''] = ([''c''], [''a''])"
    by code_simp
  have h2: "set [''b'', ''c''] = (set [''a'', ''b''] \<union> set [''c'']) - set [''a'']"
    by auto
  from plan_idempotent [OF h1 h2] h1 h2 show ?thesis by blast
qed

text \<open>
  C9. \<open>diff base values\<close> is the list \<open>values\<close> with the members of \<open>base\<close> left out:
  what remains keeps its order, and a value that is not in \<open>base\<close> occurs as often as it
  does in \<open>values\<close>. So the install list follows the order of the saved list and the
  uninstall list the order of the installed list.
\<close>

theorem diff_keeps_order_and_duplicates:
  "diff base values = filter (\<lambda>v. v \<notin> set base) values \<and>
   count_list (diff base values) v = (if v \<in> set base then 0 else count_list values v) \<and>
   reconciliationPlan L S = (filter (\<lambda>v. v \<notin> set L) S, filter (\<lambda>v. v \<notin> set S) L)"
  by (simp add: reconciliationPlan_def diff_filter count_list_filter)

theorem diff_keeps_order_and_duplicates_witness:
  "diff [''b''] [''c'', ''b'', ''a'', ''c''] = [''c'', ''a'', ''c''] \<and>
   count_list (diff [''b''] [''c'', ''b'', ''a'', ''c'']) ''c'' = 2 \<and>
   reconciliationPlan [''a'', ''b''] [''c'', ''b'', ''d''] = ([''c'', ''d''], [''a''])"
  using diff_keeps_order_and_duplicates
    [of "[''b'']" "[''c'', ''b'', ''a'', ''c'']" "''c''" "[''a'', ''b'']" "[''c'', ''b'', ''d'']"]
  by simp

section \<open>Reading traces\<close>

lemma attempted_append [simp]: "attempted opn (xs @ ys) = attempted opn xs @ attempted opn ys"
  by (simp add: attempted_def)

lemma attempted_Nil [simp]: "attempted opn [] = []"
  by (simp add: attempted_def)

lemma attempted_Cons:
  "attempted opn (ev # evs) =
     (case ev of Exec opn' x \<Rightarrow> if opn' = opn then [x] else [] | _ \<Rightarrow> []) @ attempted opn evs"
  by (simp add: attempted_def)

lemma attempted_installs [simp]:
  "attempted Install (concat (map installExtension xs)) = xs"
  "attempted Uninstall (concat (map installExtension xs)) = []"
  by (induction xs) (simp_all add: installExtension_def attempted_Cons)

lemma attempted_uninstalls [simp]:
  "attempted Uninstall (concat (map uninstallExtension xs)) = xs"
  "attempted Install (concat (map uninstallExtension xs)) = []"
  by (induction xs) (simp_all add: uninstallExtension_def attempted_Cons)

lemma attempted_empty_iff: "attempted opn evs = [] \<longleftrightarrow> (\<forall>x. Exec opn x \<notin> set evs)"
  by (induction evs) (auto simp: attempted_Cons split: event.splits)

lemma set_attempted: "set (attempted opn evs) = {x. Exec opn x \<in> set evs}"
  by (induction evs) (auto simp: attempted_Cons split: event.splits)

lemma starts_only_exec [simp]:
  "Log MsgSuccess \<notin> set (installExtension y)"
  "Log MsgSuccess \<notin> set (uninstallExtension y)"
  "LogError f \<notin> set (installExtension y)"
  "LogError f \<notin> set (uninstallExtension y)"
  "Settled opn x ok \<notin> set (installExtension y)"
  "Settled opn x ok \<notin> set (uninstallExtension y)"
  "Question I U \<notin> set (installExtension y)"
  "Question I U \<notin> set (uninstallExtension y)"
  by (simp_all add: installExtension_def uninstallExtension_def)

lemma attempted_single [simp]:
  "attempted opn [Log m] = []"
  "attempted opn [LogError f] = []"
  "attempted opn [Settled opn' x ok] = []"
  "attempted opn [Close] = []"
  "attempted opn [Question I U] = []"
  by (simp_all add: attempted_def)

lemma startUninstalls_invariant:
  assumes "installsInFlight r = []" "attempted Install (trace r) = extensionsToInstall r"
    "attempted Uninstall (trace r) = []"
    "Log MsgSuccess \<notin> set (trace r)" "LogError OperationRejected \<notin> set (trace r)"
    "\<forall>x. Settled Install x False \<notin> set (trace r)"
  shows "chainInvariant (startUninstalls r)"
  using assms by (simp add: chainInvariant_def startUninstalls_def logSuccess_def Let_def)

lemma startInstalls_invariant:
  assumes "attempted Install (trace r) = []"
    "attempted Uninstall (trace r) = []" "uninstallsInFlight r = []"
    "Log MsgSuccess \<notin> set (trace r)" "LogError OperationRejected \<notin> set (trace r)"
    "\<forall>x. Settled Install x False \<notin> set (trace r)"
  shows "chainInvariant (startInstalls r)"
proof (cases "extensionsToInstall r = []")
  case True
  let ?r' = "r\<lparr>trace := trace r @ concat (map installExtension (extensionsToInstall r)),
                installsInFlight := extensionsToInstall r\<rparr>"
  have "chainInvariant (startUninstalls ?r')"
    using assms True by (intro startUninstalls_invariant) simp_all
  with True show ?thesis by (simp add: startInstalls_def Let_def)
next
  case False
  with assms show ?thesis
    by (simp add: chainInvariant_def startInstalls_def Let_def)
qed

lemma settle_invariant:
  assumes "chainInvariant r"
  shows "chainInvariant (settle r s)"
proof (cases s)
  case (Settle opn x ok)
  show ?thesis
  proof (cases opn)
    case Install
    show ?thesis
    proof (cases "x \<in> set (installsInFlight r) \<and> status r = InstallsPending \<and> ok \<and> remove1 x (installsInFlight r) = []")
      case True
      let ?r' = "r\<lparr>trace := trace r @ [Settled Install x ok],
                    installsInFlight := remove1 x (installsInFlight r)\<rparr>"
      have "chainInvariant (startUninstalls ?r')"
        using assms True
        by (intro startUninstalls_invariant) (simp_all add: chainInvariant_def attempted_Cons)
      with True Settle Install show ?thesis by (simp add: Let_def)
    next
      case False
      with assms Settle Install show ?thesis
        by (auto simp: chainInvariant_def Let_def catchRejection_def attempted_Cons)
    qed
  next
    case Uninstall
    with assms Settle show ?thesis
      by (auto simp: chainInvariant_def Let_def catchRejection_def logSuccess_def attempted_Cons)
  qed
qed

lemma foldl_settle_invariant:
  "chainInvariant r \<Longrightarrow> chainInvariant (foldl settle r ss)"
  by (induction ss arbitrary: r) (simp_all add: settle_invariant)

lemma settle_plan [simp]:
  "extensionsToInstall (settle r s) = extensionsToInstall r"
  "extensionsToUninstall (settle r s) = extensionsToUninstall r"
proof -
  obtain opn x ok where s: "s = Settle opn x ok" by (cases s)
  show "extensionsToInstall (settle r s) = extensionsToInstall r"
    by (cases opn)
      (simp_all add: s Let_def catchRejection_def logSuccess_def startUninstalls_def)
  show "extensionsToUninstall (settle r s) = extensionsToUninstall r"
    by (cases opn)
      (simp_all add: s Let_def catchRejection_def logSuccess_def startUninstalls_def)
qed

lemma foldl_settle_plan [simp]:
  "extensionsToInstall (foldl settle r ss) = extensionsToInstall r"
  "extensionsToUninstall (foldl settle r ss) = extensionsToUninstall r"
  by (induction ss arbitrary: r) simp_all


lemma settle_trace_grows: "\<exists>evs. trace (settle r s) = trace r @ evs"
proof -
  obtain opn x ok where s: "s = Settle opn x ok" by (cases s)
  show ?thesis
    by (cases opn)
      (simp_all add: s Let_def catchRejection_def logSuccess_def startUninstalls_def)
qed

lemma installExtensions_asked:
  assumes "listExtensions e = ExecResolved out []"
    and "extensionsFile e = Some content"
    and "transformExtensionsStringToArray content \<noteq> []"
    and "reconciliationPlan (transformExtensionsStringToArray out)
           (transformExtensionsStringToArray content) = (I, U)"
    and "I \<noteq> [] \<or> U \<noteq> []"
  shows "installExtensions e =
           onAnswer (answer e) (settlements e)
             \<lparr>extensionsToInstall = I, extensionsToUninstall = U,
              trace = [Log MsgInstallingExtensions, Log MsgSeparator, Question I U],
              installsInFlight = [], uninstallsInFlight = [], status = Running\<rparr>"
  using assms
  by (auto simp: installExtensions_def readInstalledExtensions_def
      onInstalledExtensions_def Let_def)

lemma onAnswer_declined:
  "ans \<noteq> ''y'' \<Longrightarrow>
     onAnswer ans ss r = r\<lparr>trace := trace r @ [Close], status := Exited 0\<rparr>"
  by (simp add: onAnswer_def Let_def)

lemma onAnswer_confirmed_invariant:
  assumes "attempted Install (trace r) = []" "attempted Uninstall (trace r) = []"
    "uninstallsInFlight r = []" "Log MsgSuccess \<notin> set (trace r)"
    "LogError OperationRejected \<notin> set (trace r)"
    "\<forall>x. Settled Install x False \<notin> set (trace r)"
  shows "chainInvariant (onAnswer ''y'' ss r)"
proof -
  have "chainInvariant (startInstalls (r\<lparr>trace := trace r @ [Close]\<rparr>))"
    using assms by (intro startInstalls_invariant) simp_all
  then show ?thesis
    by (simp add: onAnswer_def Let_def foldl_settle_invariant)
qed

lemma onAnswer_plan [simp]:
  "extensionsToInstall (onAnswer ans ss r) = extensionsToInstall r"
  "extensionsToUninstall (onAnswer ans ss r) = extensionsToUninstall r"
  by (simp_all add: onAnswer_def Let_def startInstalls_def startUninstalls_def logSuccess_def)

lemma confirmed_run_invariant:
  assumes "listExtensions e = ExecResolved out []"
    and "extensionsFile e = Some content"
    and "transformExtensionsStringToArray content \<noteq> []"
    and "reconciliationPlan (transformExtensionsStringToArray out)
           (transformExtensionsStringToArray content) = (I, U)"
    and "I \<noteq> [] \<or> U \<noteq> []"
    and "answer e = ''y''"
  shows "chainInvariant (installExtensions e)"
    and "extensionsToInstall (installExtensions e) = I"
    and "extensionsToUninstall (installExtensions e) = U"
proof -
  note asked = installExtensions_asked [OF assms(1-5)]
  show "chainInvariant (installExtensions e)"
    unfolding asked assms(6)
    by (rule onAnswer_confirmed_invariant) (simp_all add: attempted_Cons)
  show "extensionsToInstall (installExtensions e) = I"
    and "extensionsToUninstall (installExtensions e) = U"
    by (simp_all add: asked)
qed

lemma foldl_settle_trace_grows: "\<exists>evs. trace (foldl settle r ss) = trace r @ evs"
proof (induction ss arbitrary: r)
  case Nil
  show ?case by simp
next
  case (Cons s ss)
  obtain evs where "trace (settle r s) = trace r @ evs"
    using settle_trace_grows by blast
  moreover obtain evs' where "trace (foldl settle (settle r s) ss) = trace (settle r s) @ evs'"
    using Cons.IH by blast
  ultimately show ?case by simp
qed

lemma startInstalls_attempts:
  assumes "extensionsToInstall r \<noteq> [] \<or> extensionsToUninstall r \<noteq> []"
  shows "attempted Install (trace (startInstalls r)) \<noteq> [] \<or>
         attempted Uninstall (trace (startInstalls r)) \<noteq> []"
  using assms
  by (auto simp: startInstalls_def startUninstalls_def logSuccess_def Let_def)

lemma onAnswer_confirmed_attempts:
  assumes "extensionsToInstall r \<noteq> [] \<or> extensionsToUninstall r \<noteq> []"
  shows "attempted Install (trace (onAnswer ''y'' ss r)) \<noteq> [] \<or>
         attempted Uninstall (trace (onAnswer ''y'' ss r)) \<noteq> []"
proof -
  let ?r = "startInstalls (r\<lparr>trace := trace r @ [Close]\<rparr>)"
  obtain evs where "trace (foldl settle ?r ss) = trace ?r @ evs"
    using foldl_settle_trace_grows by blast
  moreover have "attempted Install (trace ?r) \<noteq> [] \<or> attempted Uninstall (trace ?r) \<noteq> []"
    using assms by (intro startInstalls_attempts) simp
  ultimately show ?thesis
    by (auto simp: onAnswer_def Let_def)
qed

text \<open>
  C8. The plan is a function of the two input lists alone: two computations on the same
  lists, element for element, give the same install list and the same uninstall list,
  element for element. Inside a run the two lists come from the listing of the installed
  extensions and from the saved file, and two runs that read the same two texts hold
  the same plan, whatever is answered and however the child processes settle.
\<close>

theorem plan_deterministic:
  "(L1 = L2 \<and> S1 = S2 \<longrightarrow> reconciliationPlan L1 S1 = reconciliationPlan L2 S2) \<and>
   (listExtensions e1 = listExtensions e2 \<and> extensionsFile e1 = extensionsFile e2 \<longrightarrow>
      extensionsToInstall (installExtensions e1) = extensionsToInstall (installExtensions e2) \<and>
      extensionsToUninstall (installExtensions e1) =
        extensionsToUninstall (installExtensions e2))"
  by (auto simp: installExtensions_def readInstalledExtensions_def
      onInstalledExtensions_def catchRejection_def Let_def
      split: exec_result.splits option.splits)

theorem plan_deterministic_witness:
  "reconciliationPlan [''a'', ''b''] [''b'', ''c''] =
     reconciliationPlan [''a'', ''b''] [''b'', ''c''] \<and>
   extensionsToInstall (installExtensions
     \<lparr>listExtensions = ExecResolved ''a\<newline>b\<newline>'' [],
      extensionsFile = Some ''b\<newline>c\<newline>'', answer = ''n'', settlements = []\<rparr>) =
   extensionsToInstall (installExtensions
     \<lparr>listExtensions = ExecResolved ''a\<newline>b\<newline>'' [],
      extensionsFile = Some ''b\<newline>c\<newline>'', answer = ''y'',
      settlements = [Settle Install ''c'' False]\<rparr>) \<and>
   extensionsToUninstall (installExtensions
     \<lparr>listExtensions = ExecResolved ''a\<newline>b\<newline>'' [],
      extensionsFile = Some ''b\<newline>c\<newline>'', answer = ''n'', settlements = []\<rparr>) =
   extensionsToUninstall (installExtensions
     \<lparr>listExtensions = ExecResolved ''a\<newline>b\<newline>'' [],
      extensionsFile = Some ''b\<newline>c\<newline>'', answer = ''y'',
      settlements = [Settle Install ''c'' False]\<rparr>) \<and>
   extensionsToInstall (installExtensions
     \<lparr>listExtensions = ExecResolved ''a\<newline>b\<newline>'' [],
      extensionsFile = Some ''b\<newline>c\<newline>'', answer = ''n'', settlements = []\<rparr>) =
     [''c'']"
proof -
  have plan: "extensionsToInstall (installExtensions
     \<lparr>listExtensions = ExecResolved ''a\<newline>b\<newline>'' [],
      extensionsFile = Some ''b\<newline>c\<newline>'', answer = ''n'', settlements = []\<rparr>) =
     [''c'']"
    by code_simp
  from plan_deterministic
    [of "[''a'', ''b'']" "[''a'', ''b'']" "[''b'', ''c'']" "[''b'', ''c'']"
      "\<lparr>listExtensions = ExecResolved ''a\<newline>b\<newline>'' [],
        extensionsFile = Some ''b\<newline>c\<newline>'', answer = ''n'', settlements = []\<rparr>"
      "\<lparr>listExtensions = ExecResolved ''a\<newline>b\<newline>'' [],
        extensionsFile = Some ''b\<newline>c\<newline>'', answer = ''y'',
        settlements = [Settle Install ''c'' False]\<rparr>"] plan
  show ?thesis by simp
qed

section \<open>Runs that end before the question\<close>

text \<open>
  C5. When the list of installed extensions was read, the saved list is not empty, and
  the plan computed from them is empty on both sides, the run prints that there is
  nothing to do and exits with code 0: nothing else is printed, the question is not
  asked, and no install or uninstall is handed to \<^verbatim>\<open>exec\<close>.
\<close>

theorem empty_plan_exits_without_question:
  assumes "listExtensions e = ExecResolved out []"
    and "extensionsFile e = Some content"
    and "transformExtensionsStringToArray content \<noteq> []"
    and "reconciliationPlan (transformExtensionsStringToArray out)
           (transformExtensionsStringToArray content) = ([], [])"
  shows "status (installExtensions e) = Exited 0 \<and>
         trace (installExtensions e) =
           [Log MsgInstallingExtensions, Log MsgSeparator,
            Log MsgNothingToInstallAndUninstall] \<and>
         (\<forall>I U. Question I U \<notin> set (trace (installExtensions e))) \<and>
         (\<forall>opn x. Exec opn x \<notin> set (trace (installExtensions e)))"
  using assms
  by (simp add: installExtensions_def readInstalledExtensions_def
      onInstalledExtensions_def Let_def)

theorem empty_plan_exits_without_question_witness:
  "reconciliationPlan (transformExtensionsStringToArray ''a\<newline>b\<newline>'')
     (transformExtensionsStringToArray ''a\<newline>b\<newline>'') = ([], []) \<and>
   status (installExtensions
     \<lparr>listExtensions = ExecResolved ''a\<newline>b\<newline>'' [],
      extensionsFile = Some ''a\<newline>b\<newline>'', answer = ''y'',
      settlements = []\<rparr>) = Exited 0 \<and>
   trace (installExtensions
     \<lparr>listExtensions = ExecResolved ''a\<newline>b\<newline>'' [],
      extensionsFile = Some ''a\<newline>b\<newline>'', answer = ''y'',
      settlements = []\<rparr>) =
     [Log MsgInstallingExtensions, Log MsgSeparator, Log MsgNothingToInstallAndUninstall]"
proof -
  let ?e = "\<lparr>listExtensions = ExecResolved ''a\<newline>b\<newline>'' [],
      extensionsFile = Some ''a\<newline>b\<newline>'', answer = ''y'',
      settlements = []\<rparr>"
  have h1: "listExtensions ?e = ExecResolved ''a\<newline>b\<newline>'' []" by simp
  have h2: "extensionsFile ?e = Some ''a\<newline>b\<newline>''" by simp
  have h3: "transformExtensionsStringToArray ''a\<newline>b\<newline>'' \<noteq> []" by code_simp
  have h4: "reconciliationPlan (transformExtensionsStringToArray ''a\<newline>b\<newline>'')
     (transformExtensionsStringToArray ''a\<newline>b\<newline>'') = ([], [])"
    by code_simp
  from empty_plan_exits_without_question [OF h1 h2 h3 h4] h4 show ?thesis by blast
qed




section \<open>The answer to the question\<close>

text \<open>
  C4. For every non-empty plan, an answer other than the affirmative token ends the
  run with exit code 0 right after the interface is closed: no install and no uninstall
  is handed to \<^verbatim>\<open>exec\<close> for any identifier, and nothing is in flight.
\<close>

theorem decline_exits_without_changes:
  assumes "listExtensions e = ExecResolved out []"
    and "extensionsFile e = Some content"
    and "transformExtensionsStringToArray content \<noteq> []"
    and "reconciliationPlan (transformExtensionsStringToArray out)
           (transformExtensionsStringToArray content) = (I, U)"
    and "I \<noteq> [] \<or> U \<noteq> []"
    and "answer e \<noteq> ''y''"
  shows "status (installExtensions e) = Exited 0 \<and>
         trace (installExtensions e) =
           [Log MsgInstallingExtensions, Log MsgSeparator, Question I U, Close] \<and>
         (\<forall>opn x. Exec opn x \<notin> set (trace (installExtensions e))) \<and>
         installsInFlight (installExtensions e) = [] \<and>
         uninstallsInFlight (installExtensions e) = []"
  by (simp add: installExtensions_asked [OF assms(1-5)] onAnswer_declined [OF assms(6)])

theorem decline_exits_without_changes_witness:
  "reconciliationPlan (transformExtensionsStringToArray ''a\<newline>b\<newline>'')
     (transformExtensionsStringToArray ''b\<newline>c\<newline>'') = ([''c''], [''a'']) \<and>
   ''n'' \<noteq> ''y'' \<and>
   status (installExtensions \<lparr>listExtensions = ExecResolved ''a\<newline>b\<newline>'' [],
      extensionsFile = Some ''b\<newline>c\<newline>'', answer = ''n'', settlements = []\<rparr>) = Exited 0 \<and>
   trace (installExtensions \<lparr>listExtensions = ExecResolved ''a\<newline>b\<newline>'' [],
      extensionsFile = Some ''b\<newline>c\<newline>'', answer = ''n'', settlements = []\<rparr>) =
     [Log MsgInstallingExtensions, Log MsgSeparator, Question [''c''] [''a''], Close]"
proof -
  let ?e = "\<lparr>listExtensions = ExecResolved ''a\<newline>b\<newline>'' [],
      extensionsFile = Some ''b\<newline>c\<newline>'', answer = ''n'', settlements = []\<rparr>"
  have h1: "listExtensions ?e = ExecResolved ''a\<newline>b\<newline>'' []" by simp
  have h2: "extensionsFile ?e = Some ''b\<newline>c\<newline>''" by simp
  have h3: "transformExtensionsStringToArray ''b\<newline>c\<newline>'' \<noteq> []" by code_simp
  have h4: "reconciliationPlan (transformExtensionsStringToArray ''a\<newline>b\<newline>'')
     (transformExtensionsStringToArray ''b\<newline>c\<newline>'') = ([''c''], [''a''])"
    by code_simp
  have h5: "[''c''] \<noteq> [] \<or> [''a''] \<noteq> []" by simp
  have h6: "answer ?e \<noteq> ''y''" by simp
  from decline_exits_without_changes [OF h1 h2 h3 h4 h5 h6] h4 show ?thesis by simp
qed

text \<open>
  C10. The affirmative token is the one-character string \<open>y\<close>. For every non-empty
  plan the run exits with code 0 exactly when the answer is any other string, and
  exactly then nothing is handed to \<^verbatim>\<open>exec\<close>; \<open>Y\<close>, \<open>yes\<close> and \<open>y\<close> with a blank
  before or after it are such strings.
\<close>

theorem only_lowercase_y_confirms:
  assumes "listExtensions e = ExecResolved out []"
    and "extensionsFile e = Some content"
    and "transformExtensionsStringToArray content \<noteq> []"
    and "reconciliationPlan (transformExtensionsStringToArray out)
           (transformExtensionsStringToArray content) = (I, U)"
    and "I \<noteq> [] \<or> U \<noteq> []"
  shows "(status (installExtensions e) = Exited 0 \<longleftrightarrow> answer e \<noteq> ''y'') \<and>
         (attempted Install (trace (installExtensions e)) = [] \<and>
          attempted Uninstall (trace (installExtensions e)) = [] \<longleftrightarrow> answer e \<noteq> ''y'')"
proof (cases "answer e = ''y''")
  case True
  have "chainInvariant (installExtensions e)"
    by (rule confirmed_run_invariant [OF assms True])
  then have "status (installExtensions e) \<noteq> Exited 0"
    by (simp add: chainInvariant_def)
  moreover have "attempted Install (trace (installExtensions e)) \<noteq> [] \<or>
      attempted Uninstall (trace (installExtensions e)) \<noteq> []"
    unfolding installExtensions_asked [OF assms] True
    using assms(5) by (intro onAnswer_confirmed_attempts) simp
  ultimately show ?thesis using True by blast
next
  case False
  then show ?thesis
    by (simp add: installExtensions_asked [OF assms] onAnswer_declined attempted_Cons)
qed

theorem only_lowercase_y_confirms_witness:
  "status (installExtensions \<lparr>listExtensions = ExecResolved ''a\<newline>b\<newline>'' [],
      extensionsFile = Some ''b\<newline>c\<newline>'', answer = ''Y'', settlements = []\<rparr>) = Exited 0 \<and>
   status (installExtensions \<lparr>listExtensions = ExecResolved ''a\<newline>b\<newline>'' [],
      extensionsFile = Some ''b\<newline>c\<newline>'', answer = ''yes'', settlements = []\<rparr>) = Exited 0 \<and>
   status (installExtensions \<lparr>listExtensions = ExecResolved ''a\<newline>b\<newline>'' [],
      extensionsFile = Some ''b\<newline>c\<newline>'', answer = '' y'', settlements = []\<rparr>) = Exited 0 \<and>
   status (installExtensions \<lparr>listExtensions = ExecResolved ''a\<newline>b\<newline>'' [],
      extensionsFile = Some ''b\<newline>c\<newline>'', answer = ''y '', settlements = []\<rparr>) = Exited 0 \<and>
   status (installExtensions \<lparr>listExtensions = ExecResolved ''a\<newline>b\<newline>'' [],
      extensionsFile = Some ''b\<newline>c\<newline>'', answer = ''y'', settlements = []\<rparr>) \<noteq> Exited 0"
proof -
  have h3: "transformExtensionsStringToArray ''b\<newline>c\<newline>'' \<noteq> []" by code_simp
  have h4: "reconciliationPlan (transformExtensionsStringToArray ''a\<newline>b\<newline>'')
     (transformExtensionsStringToArray ''b\<newline>c\<newline>'') = ([''c''], [''a''])"
    by code_simp
  have h5: "[''c''] \<noteq> [] \<or> [''a''] \<noteq> []" by simp
  have token: "status (installExtensions \<lparr>listExtensions = ExecResolved ''a\<newline>b\<newline>'' [],
      extensionsFile = Some ''b\<newline>c\<newline>'', answer = ans, settlements = []\<rparr>) = Exited 0
      \<longleftrightarrow> ans \<noteq> ''y''" for ans
    using only_lowercase_y_confirms [OF _ _ h3 h4 h5,
        of "\<lparr>listExtensions = ExecResolved ''a\<newline>b\<newline>'' [],
      extensionsFile = Some ''b\<newline>c\<newline>'', answer = ans, settlements = []\<rparr>"]
    by simp
  show ?thesis
    using token [of "''Y''"] token [of "''yes''"] token [of "'' y''"] token [of "''y ''"]
      token [of "''y''"]
    by simp
qed

section \<open>A rejected install\<close>

text \<open>
  C2, as the code has it. The claim reads: after the plan is confirmed, an install that
  fails does not stop the other installs or the uninstalls, and the run still completes
  with the success line. In the code a failed install is a rejected \<^verbatim>\<open>exec\<close> promise,
  and it rejects the \<^verbatim>\<open>Promise.all\<close> of the installs. The run below has the plan
  install \<open>b\<close>, \<open>c\<close> and uninstall \<open>a\<close>; the install of \<open>b\<close> is rejected, and
  although \<open>c\<close> and \<open>a\<close> are ready to settle, \<open>a\<close> is never handed to \<^verbatim>\<open>exec\<close>, the
  success line is not printed and the run ends in the \<^verbatim>\<open>.catch\<close>.
\<close>

theorem rejected_install_counterexample:
  "extensionsToUninstall (installExtensions
     \<lparr>listExtensions = ExecResolved ''a'' [], extensionsFile = Some ''b\<newline>c'',
      answer = ''y'',
      settlements = [Settle Install ''b'' False, Settle Install ''c'' True,
                     Settle Uninstall ''a'' True]\<rparr>) = [''a''] \<and>
   Exec Uninstall ''a'' \<notin> set (trace (installExtensions
     \<lparr>listExtensions = ExecResolved ''a'' [], extensionsFile = Some ''b\<newline>c'',
      answer = ''y'',
      settlements = [Settle Install ''b'' False, Settle Install ''c'' True,
                     Settle Uninstall ''a'' True]\<rparr>)) \<and>
   Log MsgSuccess \<notin> set (trace (installExtensions
     \<lparr>listExtensions = ExecResolved ''a'' [], extensionsFile = Some ''b\<newline>c'',
      answer = ''y'',
      settlements = [Settle Install ''b'' False, Settle Install ''c'' True,
                     Settle Uninstall ''a'' True]\<rparr>)) \<and>
   status (installExtensions
     \<lparr>listExtensions = ExecResolved ''a'' [], extensionsFile = Some ''b\<newline>c'',
      answer = ''y'',
      settlements = [Settle Install ''b'' False, Settle Install ''c'' True,
                     Settle Uninstall ''a'' True]\<rparr>) \<noteq> Succeeded"
  by code_simp

text \<open>
  C2, amended. For every confirmed non-empty plan, every identifier of the install list
  is handed to the install command, once and in list order, whether or not an install
  fails. If the install of some identifier is rejected, no uninstall is started, the
  success line is not printed, and the run ends in the final \<^verbatim>\<open>.catch\<close>, which prints
  the rejection.
\<close>

theorem rejected_install_ends_in_catch:
  assumes "listExtensions e = ExecResolved out []"
    and "extensionsFile e = Some content"
    and "transformExtensionsStringToArray content \<noteq> []"
    and "reconciliationPlan (transformExtensionsStringToArray out)
           (transformExtensionsStringToArray content) = (I, U)"
    and "I \<noteq> [] \<or> U \<noteq> []"
    and "answer e = ''y''"
    and "Settled Install x False \<in> set (trace (installExtensions e))"
  shows "attempted Install (trace (installExtensions e)) = I \<and>
         attempted Uninstall (trace (installExtensions e)) = [] \<and>
         Log MsgSuccess \<notin> set (trace (installExtensions e)) \<and>
         LogError OperationRejected \<in> set (trace (installExtensions e)) \<and>
         status (installExtensions e) = ErrorLogged"
proof -
  have inv: "chainInvariant (installExtensions e)"
    and I: "extensionsToInstall (installExtensions e) = I"
    by (rule confirmed_run_invariant [OF assms(1-6)])+
  from inv assms(7) have st: "status (installExtensions e) = ErrorLogged"
    unfolding chainInvariant_def by (cases "status (installExtensions e)") auto
  with inv assms(7) I show ?thesis
    unfolding chainInvariant_def by auto
qed

theorem rejected_install_ends_in_catch_witness:
  "Settled Install ''b'' False \<in> set (trace (installExtensions
     \<lparr>listExtensions = ExecResolved ''a'' [], extensionsFile = Some ''b\<newline>c'',
      answer = ''y'',
      settlements = [Settle Install ''b'' False, Settle Install ''c'' True,
                     Settle Uninstall ''a'' True]\<rparr>)) \<and>
   attempted Install (trace (installExtensions
     \<lparr>listExtensions = ExecResolved ''a'' [], extensionsFile = Some ''b\<newline>c'',
      answer = ''y'',
      settlements = [Settle Install ''b'' False, Settle Install ''c'' True,
                     Settle Uninstall ''a'' True]\<rparr>)) = [''b'', ''c''] \<and>
   attempted Uninstall (trace (installExtensions
     \<lparr>listExtensions = ExecResolved ''a'' [], extensionsFile = Some ''b\<newline>c'',
      answer = ''y'',
      settlements = [Settle Install ''b'' False, Settle Install ''c'' True,
                     Settle Uninstall ''a'' True]\<rparr>)) = [] \<and>
   status (installExtensions
     \<lparr>listExtensions = ExecResolved ''a'' [], extensionsFile = Some ''b\<newline>c'',
      answer = ''y'',
      settlements = [Settle Install ''b'' False, Settle Install ''c'' True,
                     Settle Uninstall ''a'' True]\<rparr>) = ErrorLogged"
proof -
  let ?e = "\<lparr>listExtensions = ExecResolved ''a'' [], extensionsFile = Some ''b\<newline>c'',
      answer = ''y'',
      settlements = [Settle Install ''b'' False, Settle Install ''c'' True,
                     Settle Uninstall ''a'' True]\<rparr>"
  have h1: "listExtensions ?e = ExecResolved ''a'' []" by simp
  have h2: "extensionsFile ?e = Some ''b\<newline>c''" by simp
  have h3: "transformExtensionsStringToArray ''b\<newline>c'' \<noteq> []" by code_simp
  have h4: "reconciliationPlan (transformExtensionsStringToArray ''a'')
              (transformExtensionsStringToArray ''b\<newline>c'') = ([''b'', ''c''], [''a''])"
    by code_simp
  have h5: "[''b'', ''c''] \<noteq> [] \<or> [''a''] \<noteq> []" by simp
  have h6: "answer ?e = ''y''" by simp
  have h7: "Settled Install ''b'' False \<in> set (trace (installExtensions ?e))"
    by code_simp
  from rejected_install_ends_in_catch [OF h1 h2 h3 h4 h5 h6 h7] h7
  show ?thesis by blast
qed

section \<open>Starts and settlements in the trace\<close>

lemma settled_append [simp]: "settled opn (xs @ ys) = settled opn xs @ settled opn ys"
  by (simp add: settled_def)

lemma settled_Nil [simp]: "settled opn [] = []"
  by (simp add: settled_def)

lemma settled_Cons:
  "settled opn (ev # evs) =
     (case ev of Settled opn' x ok \<Rightarrow> if opn' = opn then [x] else [] | _ \<Rightarrow> []) @
     settled opn evs"
  by (simp add: settled_def)

lemma settled_starts [simp]:
  "settled opn (concat (map installExtension xs)) = []"
  "settled opn (concat (map uninstallExtension xs)) = []"
  by (induction xs) (simp_all add: installExtension_def uninstallExtension_def settled_Cons)

lemma uninstall_events_neutral:
  assumes "set us \<subseteq> set (concat (map uninstallExtension xs)) \<union> {Log MsgSuccess}"
  shows "attempted Install us = [] \<and> settled Install us = []"
  using assms
proof (induction us)
  case Nil
  show ?case by simp
next
  case (Cons ev us)
  then have "ev = Log MsgSuccess \<or> (\<exists>x. ev = Log (MsgUninstalling x) \<or> ev = Exec Uninstall x)"
    by (auto simp: uninstallExtension_def)
  with Cons show ?case
    by (auto simp: attempted_Cons settled_Cons)
qed

lemma split_after_prefix:
  assumes "t @ rest = pre @ ev # post" and "ev \<notin> set t"
  shows "\<exists>us. pre = t @ us \<and> rest = us @ ev # post"
proof -
  from assms(1) consider us where "t = pre @ us" "us @ rest = ev # post"
    | us where "t @ us = pre" "rest = us @ ev # post"
    by (auto simp: append_eq_append_conv2)
  then show ?thesis
  proof cases
    case 1
    with assms(2) have "us = []" by (cases us) auto
    with 1 show ?thesis by simp
  next
    case 2
    then show ?thesis by blast
  qed
qed

lemma split_in_prefix:
  assumes "t @ evs = pre @ ev # post" and "ev \<notin> set evs"
  shows "\<exists>post'. t = pre @ ev # post'"
proof -
  from assms(1) consider us where "t = pre @ us" "us @ evs = ev # post"
    | us where "t @ us = pre" "evs = us @ ev # post"
    by (auto simp: append_eq_append_conv2)
  then show ?thesis
  proof cases
    case 1
    with assms(2) obtain us' where "us = ev # us'" by (cases us) auto
    with 1 show ?thesis by simp
  next
    case 2
    with assms(2) show ?thesis by simp
  qed
qed

lemma follow_extend:
  assumes "uninstallsFollowInstalls r" and "trace r' = trace r @ evs"
    and "\<forall>u. Exec Uninstall u \<notin> set evs"
    and "extensionsToInstall r' = extensionsToInstall r"
  shows "uninstallsFollowInstalls r'"
  unfolding uninstallsFollowInstalls_def
proof (intro allI impI)
  fix pre u post
  assume "trace r' = pre @ Exec Uninstall u # post"
  with assms(2) have "trace r @ evs = pre @ Exec Uninstall u # post" by simp
  moreover have "Exec Uninstall u \<notin> set evs"
    using assms(3) by simp
  ultimately obtain post' where "trace r = pre @ Exec Uninstall u # post'"
    using split_in_prefix [of "trace r" evs pre "Exec Uninstall u" post] by blast
  with assms(1) have "attempted Install pre = extensionsToInstall r \<and>
      mset (settled Install pre) = mset (extensionsToInstall r)"
    unfolding uninstallsFollowInstalls_def by blast
  then show "attempted Install pre = extensionsToInstall r' \<and>
      mset (settled Install pre) = mset (extensionsToInstall r')"
    by (simp only: assms(4))
qed

lemma follow_vacuous:
  assumes "attempted Uninstall (trace r) = []"
  shows "uninstallsFollowInstalls r"
  using assms by (auto simp: uninstallsFollowInstalls_def attempted_empty_iff)

lemma startUninstalls_follow:
  assumes "attempted Uninstall (trace r) = []"
    and "attempted Install (trace r) = extensionsToInstall r"
    and "mset (settled Install (trace r)) = mset (extensionsToInstall r)"
  shows "uninstallsFollowInstalls (startUninstalls r)"
  unfolding uninstallsFollowInstalls_def
proof (intro allI impI)
  fix pre u post
  let ?U = "concat (map uninstallExtension (extensionsToUninstall r))"
  assume split: "trace (startUninstalls r) = pre @ Exec Uninstall u # post"
  obtain tl where tr: "trace (startUninstalls r) = trace r @ (?U @ tl)"
    and tl: "set tl \<subseteq> {Log MsgSuccess}"
    by (cases "extensionsToUninstall r = []")
      (auto simp: startUninstalls_def logSuccess_def Let_def)
  have "Exec Uninstall u \<notin> set (trace r)"
    using assms(1) by (simp add: attempted_empty_iff)
  with split tr obtain us where pre: "pre = trace r @ us"
    and rest: "?U @ tl = us @ Exec Uninstall u # post"
    using split_after_prefix [of "trace r" "?U @ tl" pre "Exec Uninstall u" post] by auto
  have "set us \<subseteq> set (?U @ tl)"
    unfolding rest by auto
  with tl have "set us \<subseteq> set ?U \<union> {Log MsgSuccess}" by auto
  then have "attempted Install us = [] \<and> settled Install us = []"
    by (rule uninstall_events_neutral)
  then have "attempted Install pre = attempted Install (trace r)"
    and "settled Install pre = settled Install (trace r)"
    unfolding pre by simp_all
  moreover have "extensionsToInstall (startUninstalls r) = extensionsToInstall r"
    by (simp add: startUninstalls_def logSuccess_def Let_def)
  ultimately
  show "attempted Install pre = extensionsToInstall (startUninstalls r) \<and>
      mset (settled Install pre) = mset (extensionsToInstall (startUninstalls r))"
    using assms(2,3) by (simp only:)
qed


lemma settled_single [simp]:
  "settled opn [Log m] = []"
  "settled opn [LogError f] = []"
  "settled opn [Exec opn' x] = []"
  "settled opn [Close] = []"
  "settled opn [Question I U] = []"
  "settled opn [Settled opn' x ok] = (if opn' = opn then [x] else [])"
  by (simp_all add: settled_def)

lemma settle_attempted_Install:
  "attempted Install (trace (settle r s)) = attempted Install (trace r)"
proof -
  obtain opn x ok where s: "s = Settle opn x ok" by (cases s)
  show ?thesis
    by (cases opn)
      (simp_all add: s Let_def catchRejection_def logSuccess_def startUninstalls_def
        attempted_Cons)
qed

lemma settle_Install_effect:
  assumes "x \<in> set (installsInFlight r)"
  shows "settled Install (trace (settle r (Settle Install x ok))) =
           settled Install (trace r) @ [x]"
    and "installsInFlight (settle r (Settle Install x ok)) = remove1 x (installsInFlight r)"
  using assms
  by (simp_all add: Let_def catchRejection_def logSuccess_def startUninstalls_def
      settled_Cons)

lemma settle_Install_ignored:
  assumes "x \<notin> set (installsInFlight r)"
  shows "settle r (Settle Install x ok) = r"
  using assms by simp

lemma settle_Uninstall_effect:
  "settled Install (trace (settle r (Settle Uninstall x ok))) = settled Install (trace r)"
  "installsInFlight (settle r (Settle Uninstall x ok)) = installsInFlight r"
  by (simp_all add: Let_def catchRejection_def logSuccess_def settled_Cons)

lemma settle_account:
  assumes "inFlightAccount r"
  shows "inFlightAccount (settle r s)"
proof -
  obtain opn x ok where s: "s = Settle opn x ok" by (cases s)
  show ?thesis
  proof (cases opn)
    case Install
    show ?thesis
    proof (cases "x \<in> set (installsInFlight r)")
      case True
      then have rem: "add_mset x (mset (remove1 x (installsInFlight r))) =
          mset (installsInFlight r)"
        by simp
      have "mset (remove1 x (installsInFlight r)) + mset (settled Install (trace r) @ [x]) =
          add_mset x (mset (remove1 x (installsInFlight r))) + mset (settled Install (trace r))"
        by simp
      also have "\<dots> = mset (installsInFlight r) + mset (settled Install (trace r))"
        by (simp only: rem)
      also have "\<dots> = mset (attempted Install (trace r))"
        using assms by (simp only: inFlightAccount_def)
      finally show ?thesis
        unfolding inFlightAccount_def s Install settle_attempted_Install
          settle_Install_effect [OF True] .
    next
      case False
      then have "settle r (Settle Install x ok) = r"
        by (rule settle_Install_ignored)
      with assms show ?thesis
        unfolding s Install by simp
    qed
  next
    case Uninstall
    with assms show ?thesis
      unfolding inFlightAccount_def s Uninstall settle_attempted_Install
        settle_Uninstall_effect
      by simp
  qed
qed

lemma foldl_settle_account:
  "inFlightAccount r \<Longrightarrow> inFlightAccount (foldl settle r ss)"
  by (induction ss arbitrary: r) (simp_all add: settle_account)

lemma settle_follow:
  assumes inv: "chainInvariant r" and acc: "inFlightAccount r"
    and fol: "uninstallsFollowInstalls r"
  shows "uninstallsFollowInstalls (settle r s)"
proof -
  obtain opn x ok where s: "s = Settle opn x ok" by (cases s)
  show ?thesis
  proof (cases opn)
    case Uninstall
    have "\<exists>evs. trace (settle r s) = trace r @ evs \<and> (\<forall>u. Exec Uninstall u \<notin> set evs)"
      by (simp add: s Uninstall Let_def catchRejection_def logSuccess_def)
    then obtain evs where "trace (settle r s) = trace r @ evs"
      and "\<forall>u. Exec Uninstall u \<notin> set evs"
      by blast
    with fol show ?thesis
      by (rule follow_extend) simp
  next
    case Install
    show ?thesis
    proof (cases "x \<in> set (installsInFlight r) \<and> status r = InstallsPending \<and> ok \<and>
        remove1 x (installsInFlight r) = []")
      case True
      let ?r' = "r\<lparr>trace := trace r @ [Settled Install x ok],
                    installsInFlight := remove1 x (installsInFlight r)\<rparr>"
      from True have x: "x \<in> set (installsInFlight r)"
        and emp: "remove1 x (installsInFlight r) = []"
        by simp_all
      from x have "add_mset x (mset (remove1 x (installsInFlight r))) =
          mset (installsInFlight r)"
        by simp
      then have one: "mset (installsInFlight r) = {#x#}"
        unfolding emp by simp
      from acc have "add_mset x (mset (settled Install (trace r))) =
          mset (attempted Install (trace r))"
        unfolding inFlightAccount_def one by simp
      moreover from inv True have "attempted Install (trace r) = extensionsToInstall r"
        and "attempted Uninstall (trace r) = []"
        by (simp_all add: chainInvariant_def)
      ultimately have "uninstallsFollowInstalls (startUninstalls ?r')"
        by (intro startUninstalls_follow) simp_all
      with True show ?thesis by (simp add: s Install Let_def)
    next
      case False
      then have "\<exists>evs. trace (settle r s) = trace r @ evs \<and>
          (\<forall>u. Exec Uninstall u \<notin> set evs)"
        by (auto simp: s Install Let_def catchRejection_def)
      then obtain evs where "trace (settle r s) = trace r @ evs"
        and "\<forall>u. Exec Uninstall u \<notin> set evs"
        by blast
      with fol show ?thesis
        by (rule follow_extend) simp
    qed
  qed
qed

lemma foldl_settle_follow:
  "chainInvariant r \<Longrightarrow> inFlightAccount r \<Longrightarrow> uninstallsFollowInstalls r \<Longrightarrow>
     uninstallsFollowInstalls (foldl settle r ss)"
  by (induction ss arbitrary: r)
    (simp_all add: settle_invariant settle_account settle_follow)

lemma startInstalls_account:
  assumes "attempted Install (trace r) = []" "settled Install (trace r) = []"
  shows "inFlightAccount (startInstalls r)"
  using assms
  by (simp add: inFlightAccount_def startInstalls_def startUninstalls_def logSuccess_def
      Let_def)

lemma startInstalls_follow:
  assumes "attempted Install (trace r) = []" "settled Install (trace r) = []"
    "attempted Uninstall (trace r) = []"
  shows "uninstallsFollowInstalls (startInstalls r)"
proof (cases "extensionsToInstall r = []")
  case True
  let ?r' = "r\<lparr>trace := trace r @ concat (map installExtension (extensionsToInstall r)),
                installsInFlight := extensionsToInstall r\<rparr>"
  have "uninstallsFollowInstalls (startUninstalls ?r')"
    using assms True by (intro startUninstalls_follow) simp_all
  with True show ?thesis by (simp add: startInstalls_def Let_def)
next
  case False
  have "attempted Uninstall (trace (startInstalls r)) = []"
    using assms False by (simp add: startInstalls_def Let_def)
  then show ?thesis by (rule follow_vacuous)
qed

lemma confirmed_run_follow:
  assumes "listExtensions e = ExecResolved out []"
    and "extensionsFile e = Some content"
    and "transformExtensionsStringToArray content \<noteq> []"
    and "reconciliationPlan (transformExtensionsStringToArray out)
           (transformExtensionsStringToArray content) = (I, U)"
    and "I \<noteq> [] \<or> U \<noteq> []"
    and "answer e = ''y''"
  shows "uninstallsFollowInstalls (installExtensions e)"
proof -
  let ?r = "\<lparr>extensionsToInstall = I, extensionsToUninstall = U,
      trace = [Log MsgInstallingExtensions, Log MsgSeparator, Question I U, Close],
      installsInFlight = [], uninstallsInFlight = [], status = Running\<rparr>"
  have run: "installExtensions e = foldl settle (startInstalls ?r) (settlements e)"
    by (simp add: installExtensions_asked [OF assms(1-5)] assms(6) onAnswer_def Let_def)
  have tr: "attempted Install (trace ?r) = []" "settled Install (trace ?r) = []"
    "attempted Uninstall (trace ?r) = []"
    by (simp_all add: attempted_Cons settled_Cons)
  have "chainInvariant (startInstalls ?r)"
    using tr by (intro startInstalls_invariant) simp_all
  moreover have "inFlightAccount (startInstalls ?r)"
    using tr by (intro startInstalls_account)
  moreover have "uninstallsFollowInstalls (startInstalls ?r)"
    using tr by (intro startInstalls_follow)
  ultimately show ?thesis
    unfolding run by (rule foldl_settle_follow)
qed

section \<open>Uninstalls wait for the installs\<close>

text \<open>
  C6. For every confirmed plan, at every moment of the run (after any number \<open>n\<close> of
  the settlements the environment delivers): wherever the trace shows an uninstall
  handed to \<^verbatim>\<open>exec\<close>, the trace before that point shows every install of the plan
  started, in list order, and every one of them settled, none of them rejected; and no
  install is in flight. In the code the uninstalls start in the \<^verbatim>\<open>.then\<close> after the
  \<^verbatim>\<open>Promise.all\<close> of the installs.
\<close>

theorem uninstalls_start_after_installs_settled:
  assumes "listExtensions e = ExecResolved out []"
    and "extensionsFile e = Some content"
    and "transformExtensionsStringToArray content \<noteq> []"
    and "reconciliationPlan (transformExtensionsStringToArray out)
           (transformExtensionsStringToArray content) = (I, U)"
    and "I \<noteq> [] \<or> U \<noteq> []"
    and "answer e = ''y''"
    and "r = installExtensions (e\<lparr>settlements := take n (settlements e)\<rparr>)"
    and "trace r = pre @ Exec Uninstall u # post"
  shows "attempted Install pre = I \<and> mset (settled Install pre) = mset I \<and>
         (\<forall>x. Settled Install x False \<notin> set pre) \<and> installsInFlight r = []"
proof -
  let ?e = "e\<lparr>settlements := take n (settlements e)\<rparr>"
  have env: "listExtensions ?e = ExecResolved out []" "extensionsFile ?e = Some content"
    "answer ?e = ''y''"
    using assms(1,2,6) by simp_all
  note run = confirmed_run_invariant [OF env(1,2) assms(3,4,5) env(3)]
  have inv: "chainInvariant r" and I: "extensionsToInstall r = I"
    unfolding assms(7) by (rule run)+
  have "uninstallsFollowInstalls r"
    unfolding assms(7) by (rule confirmed_run_follow [OF env(1,2) assms(3,4,5) env(3)])
  with assms(8) I have before: "attempted Install pre = I"
    "mset (settled Install pre) = mset I"
    unfolding uninstallsFollowInstalls_def by blast+
  from assms(8) have "attempted Uninstall (trace r) \<noteq> []"
    by (simp add: attempted_Cons)
  with inv have "installsInFlight r = [] \<and> (\<forall>x. Settled Install x False \<notin> set (trace r))"
    unfolding chainInvariant_def by (cases "status r") auto
  with before assms(8) show ?thesis by simp
qed

theorem uninstalls_start_after_installs_settled_witness:
  "trace (installExtensions
     (\<lparr>listExtensions = ExecResolved ''a'' [], extensionsFile = Some ''b\<newline>c'',
       answer = ''y'',
       settlements = [Settle Install ''c'' True, Settle Install ''b'' True,
                      Settle Uninstall ''a'' True]\<rparr>
      \<lparr>settlements := take 2 [Settle Install ''c'' True, Settle Install ''b'' True,
                                Settle Uninstall ''a'' True]\<rparr>)) =
     [Log MsgInstallingExtensions, Log MsgSeparator, Question [''b'', ''c''] [''a''], Close,
      Log (MsgInstalling ''b''), Exec Install ''b'', Log (MsgInstalling ''c''),
      Exec Install ''c'', Settled Install ''c'' True, Settled Install ''b'' True,
      Log (MsgUninstalling ''a'')] @ Exec Uninstall ''a'' # [] \<and>
   attempted Install
     [Log MsgInstallingExtensions, Log MsgSeparator, Question [''b'', ''c''] [''a''], Close,
      Log (MsgInstalling ''b''), Exec Install ''b'', Log (MsgInstalling ''c''),
      Exec Install ''c'', Settled Install ''c'' True, Settled Install ''b'' True,
      Log (MsgUninstalling ''a'')] = [''b'', ''c''] \<and>
   mset (settled Install
     [Log MsgInstallingExtensions, Log MsgSeparator, Question [''b'', ''c''] [''a''], Close,
      Log (MsgInstalling ''b''), Exec Install ''b'', Log (MsgInstalling ''c''),
      Exec Install ''c'', Settled Install ''c'' True, Settled Install ''b'' True,
      Log (MsgUninstalling ''a'')]) = mset [''b'', ''c''] \<and>
   Exec Uninstall ''a'' \<notin> set (trace (installExtensions
     (\<lparr>listExtensions = ExecResolved ''a'' [], extensionsFile = Some ''b\<newline>c'',
       answer = ''y'',
       settlements = [Settle Install ''c'' True, Settle Install ''b'' True,
                      Settle Uninstall ''a'' True]\<rparr>
      \<lparr>settlements := take 1 [Settle Install ''c'' True, Settle Install ''b'' True,
                                Settle Uninstall ''a'' True]\<rparr>)))"
proof -
  let ?ss = "[Settle Install ''c'' True, Settle Install ''b'' True,
              Settle Uninstall ''a'' True]"
  let ?e = "\<lparr>listExtensions = ExecResolved ''a'' [], extensionsFile = Some ''b\<newline>c'',
       answer = ''y'', settlements = ?ss\<rparr>"
  let ?r = "installExtensions (?e\<lparr>settlements := take 2 (settlements ?e)\<rparr>)"
  let ?pre = "[Log MsgInstallingExtensions, Log MsgSeparator, Question [''b'', ''c''] [''a''], Close,
      Log (MsgInstalling ''b''), Exec Install ''b'', Log (MsgInstalling ''c''),
      Exec Install ''c'', Settled Install ''c'' True, Settled Install ''b'' True,
      Log (MsgUninstalling ''a'')]"
  have h1: "listExtensions ?e = ExecResolved ''a'' []" by simp
  have h2: "extensionsFile ?e = Some ''b\<newline>c''" by simp
  have h3: "transformExtensionsStringToArray ''b\<newline>c'' \<noteq> []" by code_simp
  have h4: "reconciliationPlan (transformExtensionsStringToArray ''a'')
              (transformExtensionsStringToArray ''b\<newline>c'') = ([''b'', ''c''], [''a''])"
    by code_simp
  have h5: "[''b'', ''c''] \<noteq> [] \<or> [''a''] \<noteq> []" by simp
  have h6: "answer ?e = ''y''" by simp
  have h7: "?r = installExtensions (?e\<lparr>settlements := take 2 (settlements ?e)\<rparr>)" ..
  have h8: "trace ?r = ?pre @ Exec Uninstall ''a'' # []" by code_simp
  have early: "Exec Uninstall ''a'' \<notin> set (trace (installExtensions
      (?e\<lparr>settlements := take 1 ?ss\<rparr>)))"
    by code_simp
  have here: "trace (installExtensions (?e\<lparr>settlements := take 2 ?ss\<rparr>)) =
      ?pre @ Exec Uninstall ''a'' # []"
    using h8 by simp
  from uninstalls_start_after_installs_settled [OF h1 h2 h3 h4 h5 h6 h7 h8] here early
  show ?thesis by blast
qed

end
